theory Spec2Isabelle
  imports Main
begin

section \<open>pm2-notify: the aggregation and debounced-dispatch pipeline of src/app.ts\<close>

text \<open>
  The program is a single TypeScript module run by Node. Its mutable module state is the
  object \<open>queues\<close> (one array of fragments per event type) and the variable
  \<open>mailTimeout\<close>. Everything the module talks to (the template, mjml2html, he.encode, the
  mail transporter, the PM2 bus) is a collaborator; the collaborators whose results decide a
  branch are parameters of the model, the calls made to them are recorded in the state.
\<close>

subsection \<open>Data\<close>

type_synonym target = string

text \<open>\<open>Packet\<close>: only \<open>packet.process.name\<close> and \<open>packet.data\<close> are read.\<close>

record packet =
  process_name :: string
  data :: string

text \<open>\<open>QData\<close>, as pushed by \<open>handleEvent\<close>: \<open>{ event, name, message }\<close>.\<close>

record qdata =
  qd_event :: target
  qd_name :: string
  qd_message :: string

text \<open>\<open>Log\<close>, as pushed by \<open>aggregateLogs\<close>: \<open>{ name, message }\<close>.\<close>

record log =
  log_name :: string
  log_message :: string

text \<open>The argument of \<open>transporter.sendMail\<close>: \<open>{ subject, html }\<close>.\<close>

record mail =
  subject :: string
  html :: string

text \<open>
  \<open>config\<close>: \<open>config.target\<close> is an object from event type to the list of watched process
  names, given here by its own properties in creation order; \<open>config.timeout\<close>;
  \<open>config.mail.subject\<close>.
\<close>

record config =
  cfg_target :: "(target \<times> string list) list"
  cfg_timeout :: nat
  cfg_subject :: string

text \<open>
  The collaborators that decide a branch of \<open>sendMail\<close> or a value of \<open>aggregateLogs\<close>:
  \<open>he.encode\<close>; the compiled handlebars \<open>template\<close> (\<open>None\<close>: the call throws);
  \<open>mjml2html\<close>, returning \<open>(errors, html)\<close>.
\<close>

record collab =
  he_encode :: "string \<Rightarrow> string"
  template :: "log list \<Rightarrow> string option"
  mjml2html :: "string \<Rightarrow> string list \<times> string"

text \<open>
  The module state and the part of the runtime it acts on:
  \<^item> \<open>queues\<close>: the object \<open>queues\<close>, own properties in creation order;
  \<^item> \<open>queues_proto\<close>: \<open>Some a\<close> when the prototype of \<open>queues\<close> is the array \<open>a\<close> (line 37 run
    for an event type \<open>__proto__\<close>), \<open>None\<close> when it is \<open>Object.prototype\<close>;
  \<^item> \<open>mailTimeout\<close>: the variable of that name, \<open>None\<close> for \<open>null\<close>, \<open>Some h\<close> for the handle
    \<open>h\<close> returned by \<open>setTimeout\<close> (a Timeout object, always truthy);
  \<^item> \<open>timers\<close>: the handles armed by \<open>setTimeout\<close> whose callback has not run yet (the
    module never calls \<open>clearTimeout\<close>), \<open>next_handle\<close> the next fresh handle;
  \<^item> \<open>awaiting\<close>: the number of \<open>sendMail\<close> calls suspended at
    \<open>await transporter.sendMail(...)\<close>;
  \<^item> \<open>rendered\<close>: the arguments of the calls \<open>template({ logs })\<close>, oldest first;
  \<^item> \<open>sent\<close>: the arguments of the calls \<open>transporter.sendMail(...)\<close>, oldest first;
  \<^item> \<open>console\<close>: the first argument of each \<open>console.log\<close>/\<open>console.error\<close> call.
\<close>

record state =
  queues :: "(target \<times> qdata list) list"
  queues_proto :: "qdata list option"
  mailTimeout :: "nat option"
  timers :: "nat list"
  next_handle :: nat
  awaiting :: nat
  rendered :: "log list list"
  sent :: "mail list"
  console :: "string list"

subsection \<open>JavaScript objects used as dictionaries\<close>

text \<open>
  \<open>Object.keys\<close> and \<open>Object.entries\<close> list the own string keys of an ordinary object with
  the array indices first, in ascending numeric order, and then the other keys in creation
  order. An array index is the canonical decimal form of an integer below \<open>2^32 - 1\<close>.
\<close>

definition is_digit :: "char \<Rightarrow> bool" where
  "is_digit c = (48 \<le> (of_char c :: nat) \<and> (of_char c :: nat) \<le> 57)"

definition index_value :: "string \<Rightarrow> nat" where
  "index_value s = foldl (\<lambda>acc c. 10 * acc + ((of_char c :: nat) - 48)) 0 s"

definition is_array_index :: "string \<Rightarrow> bool" where
  "is_array_index s =
     (s \<noteq> [] \<and> list_all is_digit s \<and> (length s = 1 \<or> hd s \<noteq> CHR ''0'')
      \<and> index_value s < 2 ^ 32 - 1)"

definition js_entries :: "(string \<times> 'a) list \<Rightarrow> (string \<times> 'a) list" where
  "js_entries kvs =
     sort_key (\<lambda>kv. index_value (fst kv)) (filter (\<lambda>kv. is_array_index (fst kv)) kvs)
     @ filter (\<lambda>kv. \<not> is_array_index (fst kv)) kvs"

text \<open>
  An object literal \<open>{}\<close> inherits from \<open>Object.prototype\<close>. Reading a key that is not an own
  property finds the inherited property of that name, if there is one: the functions below
  and the accessor \<open>__proto__\<close>. A function converts to a string as its source text, which
  Node prints as \<open>function NAME() { [native code] }\<close>; \<open>Object.prototype.constructor\<close> is the
  function \<open>Object\<close>.
\<close>

definition object_prototype_functions :: "string list" where
  "object_prototype_functions =
     [''constructor'', ''__defineGetter__'', ''__defineSetter__'', ''hasOwnProperty'',
      ''__lookupGetter__'', ''__lookupSetter__'', ''isPrototypeOf'',
      ''propertyIsEnumerable'', ''toString'', ''valueOf'', ''toLocaleString'']"

definition native_function_text :: "string \<Rightarrow> string" where
  "native_function_text key =
     ''function '' @ (if key = ''constructor'' then ''Object'' else key)
       @ ''() { [native code] }''"

subsection \<open>Module initialisation (lines 31 to 38)\<close>

definition eventTypes :: "config \<Rightarrow> target list" where
  "eventTypes cfg = map fst (js_entries (cfg_target cfg))"

text \<open>
  \<open>queues[event] = []\<close> for each event type creates an own property, except for the key
  \<open>__proto__\<close>: there the assignment goes to the inherited setter, which makes the new array
  the prototype of \<open>queues\<close> and creates no own property.
\<close>

definition init_queues :: "config \<Rightarrow> (target \<times> qdata list) list" where
  "init_queues cfg =
     map (\<lambda>event. (event, [])) (filter (\<lambda>event. event \<noteq> ''__proto__'') (eventTypes cfg))"

definition init_queues_proto :: "config \<Rightarrow> qdata list option" where
  "init_queues_proto cfg = (if ''__proto__'' \<in> set (eventTypes cfg) then Some [] else None)"

definition init_state :: "config \<Rightarrow> state" where
  "init_state cfg =
     \<lparr>queues = init_queues cfg, queues_proto = init_queues_proto cfg,
      mailTimeout = None, timers = [], next_handle = 0,
      awaiting = 0, rendered = [], sent = [], console = []\<rparr>"

subsection \<open>aggregateLogs (lines 41 to 54)\<close>

text \<open>
  One pass of the inner loop over the drained fragments, on the object \<open>content\<close>:
  \<^verbatim>\<open>content[data.name] = content[data.name] || ''; content[data.name] += data.message;\<close>
  \<^item> an own property holds a string \<open>s\<close>; \<open>s || ''\<close> is \<open>s\<close> (also when \<open>s\<close> is empty), the
    message is appended;
  \<^item> for \<open>__proto__\<close> the read gives \<open>Object.prototype\<close>, both assignments go to the inherited
    setter, which ignores a string: no own property is created;
  \<^item> for the name of an inherited function the read gives that function, which is truthy:
    it becomes the own property, and \<open>+=\<close> appends the message to its source text;
  \<^item> for any other name the read gives \<open>undefined\<close>, so the property starts as \<open>''\<close>.
\<close>

definition add_fragment :: "(string \<times> string) list \<Rightarrow> qdata \<Rightarrow> (string \<times> string) list" where
  "add_fragment content d =
     (case map_of content (qd_name d) of
        Some s \<Rightarrow>
          map (\<lambda>(k, v). if k = qd_name d then (k, v @ qd_message d) else (k, v)) content
      | None \<Rightarrow>
          if qd_name d = ''__proto__'' then content
          else if qd_name d \<in> set object_prototype_functions
          then content @ [(qd_name d, native_function_text (qd_name d) @ qd_message d)]
          else content @ [(qd_name d, [] @ qd_message d)])"

definition group_content :: "qdata list \<Rightarrow> (string \<times> string) list" where
  "group_content qd = foldl add_fragment [] qd"

text \<open>The second inner loop: one \<open>Log\<close> per entry of \<open>content\<close>.\<close>

definition category_logs :: "(string \<Rightarrow> string) \<Rightarrow> target \<Rightarrow> qdata list \<Rightarrow> log list" where
  "category_logs enc event qd =
     map (\<lambda>(name, message). \<lparr>log_name = name @ '' '' @ event, log_message = enc message\<rparr>)
       (js_entries (group_content qd))"

text \<open>
  \<open>aggregateLogs\<close> returns the logs and leaves every array of \<open>queues\<close> empty
  (\<open>qdata.splice(0, qdata.length)\<close> removes all elements in place); the model returns both.
\<close>

definition aggregateLogs ::
  "(string \<Rightarrow> string) \<Rightarrow> (target \<times> qdata list) list \<Rightarrow> log list \<times> (target \<times> qdata list) list" where
  "aggregateLogs enc qs =
     (concat (map (\<lambda>(event, qd). category_logs enc event qd) (js_entries qs)),
      map (\<lambda>(event, qd). (event, [])) qs)"

subsection \<open>sendMail (lines 57 to 72)\<close>

text \<open>
  \<open>sendMail\<close> is an async function. \<open>sendMail_start\<close> is the part that runs synchronously
  when it is called: up to the \<open>await\<close>, or, when the template throws or mjml2html reports
  errors, through \<open>catch\<close> and \<open>finally\<close>. \<open>sendMail_settle\<close> is the part that runs when the
  awaited promise settles (\<open>True\<close>: fulfilled, \<open>False\<close>: rejected), ending in \<open>finally\<close>.
\<close>

definition mail_subject :: "config \<Rightarrow> target \<Rightarrow> string" where
  "mail_subject cfg eventName =
     (if eventName = [] then ''log:err'' else eventName) @ ''-'' @ cfg_subject cfg"

definition sendMail_start :: "config \<Rightarrow> collab \<Rightarrow> target \<Rightarrow> state \<Rightarrow> state" where
  "sendMail_start cfg col eventName s =
     (let (logs, qs) = aggregateLogs (he_encode col) (queues s);
          s1 = s\<lparr>queues := qs, rendered := rendered s @ [logs]\<rparr>
      in case template col logs of
           None \<Rightarrow>
             s1\<lparr>console := console s1 @ [''Error sending mail:''], mailTimeout := None\<rparr>
         | Some content \<Rightarrow>
             (case mjml2html col content of
                (errors, output) \<Rightarrow>
                  if length errors > 0
                  then s1\<lparr>console := console s1 @ [''Error sending mail:''],
                          mailTimeout := None\<rparr>
                  else s1\<lparr>sent := sent s1 @ [\<lparr>subject = mail_subject cfg eventName,
                                                 html = output\<rparr>],
                          awaiting := awaiting s1 + 1\<rparr>))"

definition sendMail_settle :: "bool \<Rightarrow> state \<Rightarrow> state" where
  "sendMail_settle fulfilled s =
     s\<lparr>console := console s @ [if fulfilled then ''SendMail'' else ''Error sending mail:''],
       awaiting := awaiting s - 1,
       mailTimeout := None\<rparr>"

subsection \<open>handleEvent (lines 75 to 93)\<close>

text \<open>\<open>packet.data.includes(marker)\<close>: the marker occurs as a substring.\<close>

fun includes_str :: "string \<Rightarrow> string \<Rightarrow> bool" where
  "includes_str [] p = (p = [])"
| "includes_str (c # cs) p = (take (length p) (c # cs) = p \<or> includes_str cs p)"

text \<open>\<open>queues[event].push(d)\<close>.\<close>

definition push_queue :: "target \<Rightarrow> qdata \<Rightarrow> (target \<times> qdata list) list \<Rightarrow> (target \<times> qdata list) list" where
  "push_queue event d qs = map (\<lambda>(e, qd). if e = event then (e, qd @ [d]) else (e, qd)) qs"

text \<open>
  Lines 84 to 92 of \<open>handleEvent\<close>, on the state \<open>s1\<close> after the push: an error event arms
  the timeout unless \<open>mailTimeout\<close> is set; another event with the marker in its data calls
  \<open>sendMail\<close>.
\<close>

definition schedule :: "config \<Rightarrow> collab \<Rightarrow> target \<Rightarrow> packet \<Rightarrow> state \<Rightarrow> state" where
  "schedule cfg col event p s1 =
     (if event = ''log:err''
      then (if mailTimeout s1 = None
            then s1\<lparr>mailTimeout := Some (next_handle s1),
                    timers := timers s1 @ [next_handle s1],
                    next_handle := next_handle s1 + 1\<rparr>
            else s1)
      else if includes_str (data p) ''BROADCST:EMAIL''
      then sendMail_start cfg col event s1
      else s1)"

text \<open>
  \<open>handleEvent\<close>. The result is \<open>None\<close> when the call throws a TypeError:
  \<open>config.target[event]\<close> is not an own property, so that \<open>.includes\<close> is not a function, or
  \<open>queues[event]\<close> has no \<open>push\<close>. The read \<open>queues[event]\<close> finds the own property if there
  is one; for the key \<open>__proto__\<close> it finds the prototype of \<open>queues\<close>, and the push goes to
  that array when line 37 has installed one (\<open>Object.entries\<close> never lists it, so nothing
  drains it); any other missing key gives \<open>undefined\<close> or an inherited value without \<open>push\<close>.
  The bus only calls \<open>handleEvent\<close> for the event types of \<open>config.target\<close>.
\<close>

definition handleEvent :: "config \<Rightarrow> collab \<Rightarrow> target \<Rightarrow> packet \<Rightarrow> state \<Rightarrow> state option" where
  "handleEvent cfg col event p s =
     (case map_of (cfg_target cfg) event of
        None \<Rightarrow> None
      | Some names \<Rightarrow>
          if process_name p \<notin> set names then Some s
          else
            (case map_of (queues s) event of
               Some _ \<Rightarrow>
                 Some (schedule cfg col event p
                   (s\<lparr>queues :=
                        push_queue event
                          \<lparr>qd_event = event, qd_name = process_name p, qd_message = data p\<rparr>
                          (queues s)\<rparr>))
             | None \<Rightarrow>
                 if event = ''__proto__''
                 then (case queues_proto s of
                         None \<Rightarrow> None
                       | Some a \<Rightarrow>
                           Some (schedule cfg col event p
                             (s\<lparr>queues_proto :=
                                  Some (a @ [\<lparr>qd_event = event, qd_name = process_name p,
                                               qd_message = data p\<rparr>])\<rparr>)))
                 else None))"

subsection \<open>The event loop\<close>

text \<open>
  What the runtime can do to the module after start-up, one turn at a time:
  \<^item> \<open>Emit event p\<close>: the bus emits \<open>p\<close> under \<open>event\<close>; the listener registered at line 111
    runs \<open>handleEvent\<close> (no listener exists for an event type outside \<open>eventTypes\<close>);
  \<^item> \<open>Fire h\<close>: the armed timeout \<open>h\<close> elapses; its callback runs \<open>sendMail('log:err')\<close>;
  \<^item> \<open>Settle ok\<close>: the promise of one suspended \<open>sendMail\<close> settles.
\<close>

datatype action = Emit target packet | Fire nat | Settle bool

definition step :: "config \<Rightarrow> collab \<Rightarrow> state \<Rightarrow> action \<Rightarrow> state" where
  "step cfg col s a =
     (case a of
        Emit event p \<Rightarrow>
          (if event \<in> set (eventTypes cfg)
           then (case handleEvent cfg col event p s of Some s' \<Rightarrow> s' | None \<Rightarrow> s)
           else s)
      | Fire h \<Rightarrow>
          (if h \<in> set (timers s)
           then sendMail_start cfg col ''log:err'' (s\<lparr>timers := removeAll h (timers s)\<rparr>)
           else s)
      | Settle ok \<Rightarrow> (if awaiting s > 0 then sendMail_settle ok s else s))"

definition run :: "config \<Rightarrow> collab \<Rightarrow> state \<Rightarrow> action list \<Rightarrow> state" where
  "run cfg col s as = foldl (step cfg col) s as"

subsection \<open>Start-up (lines 20 to 28 and 96 to 115)\<close>

text \<open>
  The outcomes of the three awaited start-up calls: \<open>transporter.verify()\<close>, \<open>pm2.connect\<close>,
  \<open>pm2.launchBus\<close> (\<open>True\<close>: fulfilled).
\<close>

record boot =
  smtp_ok :: bool
  connect_ok :: bool
  bus_ok :: bool

text \<open>
  What start-up did: the status passed to \<open>process.exit\<close> if it was called, the event types
  a listener was registered for, and the console lines.
\<close>

record started =
  exit_status :: "nat option"
  subscribed :: "target list"
  boot_console :: "string list"

definition startup :: "config \<Rightarrow> boot \<Rightarrow> started" where
  "startup cfg b =
     (if \<not> smtp_ok b
      then \<lparr>exit_status = Some 1, subscribed = [],
            boot_console = [''SMTP connection failed:'']\<rparr>
      else if \<not> connect_ok b
      then \<lparr>exit_status = None, subscribed = [],
            boot_console = [''SMTP server is ready to take messages'', ''Fatal error:'']\<rparr>
      else if \<not> bus_ok b
      then \<lparr>exit_status = None, subscribed = [],
            boot_console = [''SMTP server is ready to take messages'',
                            ''[PM2] Log streaming connected'', ''Fatal error:'']\<rparr>
      else \<lparr>exit_status = None, subscribed = eventTypes cfg,
            boot_console = [''SMTP server is ready to take messages'',
                            ''[PM2] Log streaming connected'',
                            ''[PM2] Log streaming launched'']
                           @ map (\<lambda>event. ''[PM2] '' @ event @ '' streaming started'')
                               (eventTypes cfg)\<rparr>)"

subsection \<open>Concrete configuration and collaborators\<close>

text \<open>
  A configuration with two event types, used to run the model on concrete inputs. Both
  watch the processes \<open>svc\<close> and \<open>constructor\<close>.
\<close>

definition demo_config :: config where
  "demo_config =
     \<lparr>cfg_target = [(''log:err'', [''svc'', ''constructor'']),
                    (''log:out'', [''svc'', ''constructor''])],
      cfg_timeout = 5000, cfg_subject = ''pm2''\<rparr>"

text \<open>
  \<open>he.encode\<close> with its default options, on printable ASCII text: each of the six unsafe
  symbols becomes a hexadecimal character reference, every other printable ASCII
  character stays.
\<close>

definition he_escape :: "char \<Rightarrow> string" where
  "he_escape c =
     (if c = CHR 0x22 then ''&#x22;''
      else if c = CHR 0x26 then ''&#x26;''
      else if c = CHR 0x27 then ''&#x27;''
      else if c = CHR 0x3C then ''&#x3C;''
      else if c = CHR 0x3E then ''&#x3E;''
      else if c = CHR 0x60 then ''&#x60;''
      else [c])"

definition he_encode_ascii :: "string \<Rightarrow> string" where
  "he_encode_ascii s = concat (map he_escape s)"

text \<open>A template that lists the logs one per line, and an mjml2html that accepts it.\<close>

definition demo_template :: "log list \<Rightarrow> string option" where
  "demo_template logs =
     Some (concat (map (\<lambda>l. log_name l @ '': '' @ log_message l @ ''; '') logs))"

definition demo_collab :: collab where
  "demo_collab =
     \<lparr>he_encode = he_encode_ascii, template = demo_template,
      mjml2html = (\<lambda>content. ([], ''<p>'' @ content @ ''</p>''))\<rparr>"

text \<open>The same collaborators, with an mjml2html that reports an error.\<close>

definition failing_collab :: collab where
  "failing_collab =
     \<lparr>he_encode = he_encode_ascii, template = demo_template,
      mjml2html = (\<lambda>content. ([''mj-body is missing''], []))\<rparr>"

definition pkt :: "string \<Rightarrow> string \<Rightarrow> packet" where
  "pkt name message = \<lparr>process_name = name, data = message\<rparr>"

subsection \<open>Auxiliary notions for the properties\<close>

text \<open>A fragment as \<open>handleEvent\<close> queues it.\<close>

definition frag :: "target \<Rightarrow> string \<Rightarrow> string \<Rightarrow> qdata" where
  "frag event name message = \<lparr>qd_event = event, qd_name = name, qd_message = message\<rparr>"

text \<open>A process name that is not the name of a property inherited by \<open>content\<close>.\<close>

definition plain_name :: "string \<Rightarrow> bool" where
  "plain_name n = (n \<noteq> ''__proto__'' \<and> n \<notin> set object_prototype_functions)"

text \<open>
  What the message of a process starts with before its first payload: the source text of
  the inherited function of that name, or nothing.
\<close>

definition inherited_text :: "string \<Rightarrow> string" where
  "inherited_text n =
     (if n \<in> set object_prototype_functions then native_function_text n else [])"

text \<open>The payloads of the fragments of one process in a queue, concatenated in arrival order.\<close>

definition payloads :: "string \<Rightarrow> qdata list \<Rightarrow> string" where
  "payloads n qd = concat (map qd_message (filter (\<lambda>d. qd_name d = n) qd))"

text \<open>An action that does not enter the broadcast branch of \<open>handleEvent\<close> (line 89).\<close>

definition broadcast_free :: "action \<Rightarrow> bool" where
  "broadcast_free a =
     (case a of
        Emit event p \<Rightarrow> event = ''log:err'' \<or> \<not> includes_str (data p) ''BROADCST:EMAIL''
      | Fire h \<Rightarrow> True
      | Settle ok \<Rightarrow> True)"

text \<open>
  The discipline the guard at line 85 aims at: no armed timeout, or exactly the one held
  by \<open>mailTimeout\<close>; and at most one suspended \<open>sendMail\<close>, during which \<open>mailTimeout\<close> is
  still set.
\<close>

definition single_timer :: "state \<Rightarrow> bool" where
  "single_timer s =
     ((timers s = [] \<or> (awaiting s = 0 \<and> (case mailTimeout s of None \<Rightarrow> False | Some h \<Rightarrow> timers s = [h])))
      \<and> (awaiting s = 0 \<or> (awaiting s = 1 \<and> mailTimeout s \<noteq> None)))"

text \<open>
  States of the concrete configuration: after one error event (the timeout is armed and
  the fragment queued); after three error events of two processes; after one error event
  and a broadcast event (its send is in flight); and after that send has settled (the
  queues are empty, the timeout is still armed).
\<close>

definition error_pending :: state where
  "error_pending =
     run demo_config demo_collab (init_state demo_config) [Emit ''log:err'' (pkt ''svc'' ''A'')]"

definition errors_pending :: state where
  "errors_pending =
     run demo_config demo_collab (init_state demo_config)
       [Emit ''log:err'' (pkt ''svc'' ''A''),
        Emit ''log:err'' (pkt ''constructor'' ''B''),
        Emit ''log:err'' (pkt ''svc'' ''C<'')]"


definition drained_timer_armed :: state where
  "drained_timer_armed =
     run demo_config demo_collab (init_state demo_config)
       [Emit ''log:err'' (pkt ''svc'' ''A''),
        Emit ''log:out'' (pkt ''svc'' ''BROADCST:EMAIL''),
        Settle True]"

section \<open>Properties\<close>

subsection \<open>Enumeration order and draining\<close>

lemma js_entries_Nil: "js_entries [] = []"
  by (simp add: js_entries_def)

lemma set_js_entries: "set (js_entries kvs) = set kvs"
  by (auto simp: js_entries_def)

lemma distinct_js_entries: "distinct kvs \<Longrightarrow> distinct (js_entries kvs)"
  by (auto simp: js_entries_def)

lemma category_logs_Nil: "category_logs enc event [] = []"
  by (simp add: category_logs_def group_content_def js_entries_Nil)

lemma aggregateLogs_snd: "snd (aggregateLogs enc qs) = map (\<lambda>(event, qd). (event, [])) qs"
  by (simp add: aggregateLogs_def)

lemma aggregateLogs_fst:
  "fst (aggregateLogs enc qs) =
     concat (map (\<lambda>(event, qd). category_logs enc event qd) (js_entries qs))"
  by (simp add: aggregateLogs_def)

lemma concat_all_Nil: "(\<And>x. x \<in> set xs \<Longrightarrow> f x = []) \<Longrightarrow> concat (map f xs) = []"
  by (induction xs) auto

lemma aggregateLogs_empty:
  assumes "list_all (\<lambda>eq. snd eq = []) qs"
  shows "fst (aggregateLogs enc qs) = []"
proof -
  have "\<And>x. x \<in> set (js_entries qs) \<Longrightarrow> (\<lambda>(event, qd). category_logs enc event qd) x = []"
    using assms by (auto simp: set_js_entries list_all_iff category_logs_Nil)
  then show ?thesis
    unfolding aggregateLogs_fst by (rule concat_all_Nil)
qed

lemma drained_all_empty: "list_all (\<lambda>eq. snd eq = []) (map (\<lambda>(event, qd). (event, [])) qs)"
  by (induction qs) auto

subsection \<open>The fields of the state after the synchronous part of sendMail\<close>

lemma sendMail_start_queues:
  "queues (sendMail_start cfg col ev s) = map (\<lambda>(event, qd). (event, [])) (queues s)"
  by (simp add: sendMail_start_def aggregateLogs_def Let_def split: option.splits prod.splits)

lemma sendMail_start_rendered:
  "rendered (sendMail_start cfg col ev s) =
     rendered s @ [fst (aggregateLogs (he_encode col) (queues s))]"
  by (simp add: sendMail_start_def aggregateLogs_def Let_def split: option.splits prod.splits)

lemma sendMail_start_timers:
  "timers (sendMail_start cfg col ev s) = timers s"
  "next_handle (sendMail_start cfg col ev s) = next_handle s"
  by (simp_all add: sendMail_start_def aggregateLogs_def Let_def split: option.splits prod.splits)

lemma sendMail_start_includes:
  assumes "(e, q) \<in> set (queues s)"
  shows "set (category_logs (he_encode col) e q)
           \<subseteq> set (last (rendered (sendMail_start cfg col ev s)))"
proof -
  have "(e, q) \<in> set (js_entries (queues s))"
    using assms by (simp add: set_js_entries)
  then show ?thesis
    by (force simp: sendMail_start_rendered aggregateLogs_fst)
qed

lemma sendMail_start_drained:
  "list_all (\<lambda>eq. snd eq = []) (queues (sendMail_start cfg col ev s))"
  by (simp add: sendMail_start_queues drained_all_empty)


lemma sendMail_start_template_throws:
  assumes "template col (fst (aggregateLogs (he_encode col) (queues s))) = None"
  shows "sent (sendMail_start cfg col ev s) = sent s
       \<and> awaiting (sendMail_start cfg col ev s) = awaiting s
       \<and> mailTimeout (sendMail_start cfg col ev s) = None"
  using assms
  by (auto simp: sendMail_start_def Let_def split: prod.splits)

lemma sendMail_start_slot:
  "(mailTimeout (sendMail_start cfg col ev s) = None
      \<and> awaiting (sendMail_start cfg col ev s) = awaiting s)
   \<or> (mailTimeout (sendMail_start cfg col ev s) = mailTimeout s
      \<and> awaiting (sendMail_start cfg col ev s) = awaiting s + 1)"
  by (simp add: sendMail_start_def Let_def split: option.splits prod.splits)

subsection \<open>Queues\<close>

lemma push_queue_mem:
  assumes "(e, q) \<in> set qs"
  shows "(e, if e = ev then q @ [d] else q) \<in> set (push_queue ev d qs)"
  using assms by (force simp: push_queue_def)

lemma map_of_push_queue:
  "map_of (push_queue e d qs) e' =
     (if e' = e then map_option (\<lambda>q. q @ [d]) (map_of qs e) else map_of qs e')"
  by (induction qs) (auto simp: push_queue_def)

lemma push_after_drain:
  "push_queue e d (map (\<lambda>(event, qd). (event, [])) qs)
     = map (\<lambda>(event, qd). (event, if event = e then [d] else [])) qs"
  by (induction qs) (auto simp: push_queue_def)

lemma push_two_after_init:
  "push_queue e d2 (push_queue e d1 (map (\<lambda>e'. (e', [])) ets))
     = map (\<lambda>e'. (e', if e' = e then [d1, d2] else [])) ets"
  by (induction ets) (auto simp: push_queue_def)

lemma map_fst_tagged: "map fst (map (\<lambda>e. (e, f e)) ets) = ets"
  by (simp add: comp_def)

lemma map_of_tagged: "e \<in> set ets \<Longrightarrow> map_of (map (\<lambda>e'. (e', v)) ets) e = Some v"
  by (induction ets) auto


lemma distinct_keys_js_entries:
  assumes "distinct (map fst kvs)"
  shows "distinct (map fst (js_entries kvs))"
proof -
  have "distinct kvs" and "inj_on fst (set kvs)"
    using assms by (simp_all add: distinct_map)
  then show ?thesis
    by (simp add: distinct_map distinct_js_entries set_js_entries)
qed

lemma map_of_eventTypes:
  assumes "map_of (cfg_target cfg) ev = Some names"
  shows "ev \<in> set (eventTypes cfg)"
proof -
  have "(ev, names) \<in> set (cfg_target cfg)"
    using assms by (rule map_of_SomeD)
  then have "(ev, names) \<in> set (js_entries (cfg_target cfg))"
    by (simp add: set_js_entries)
  then show ?thesis
    unfolding eventTypes_def by force
qed

lemma init_queues_no_proto: "''__proto__'' \<notin> set (map fst (init_queues cfg))"
  by (auto simp: init_queues_def)

lemma map_of_init_queues:
  assumes "map_of (cfg_target cfg) e = Some names" and "e \<noteq> ''__proto__''"
  shows "map_of (init_queues cfg) e = Some []"
proof -
  have "e \<in> set (eventTypes cfg)"
    using assms(1) by (rule map_of_eventTypes)
  then have "e \<in> set (filter (\<lambda>event. event \<noteq> ''__proto__'') (eventTypes cfg))"
    using assms(2) by simp
  then show ?thesis
    unfolding init_queues_def by (rule map_of_tagged)
qed

lemma concat_map_single:
  assumes "distinct xs" and "x \<in> set xs" and "\<And>y. y \<in> set xs \<Longrightarrow> y \<noteq> x \<Longrightarrow> f y = []"
  shows "concat (map f xs) = f x"
  using assms
proof (induction xs)
  case Nil
  then show ?case by simp
next
  case (Cons a xs)
  show ?case
  proof (cases "a = x")
    case True
    then have "x \<notin> set xs" using Cons.prems(1) by simp
    then have "concat (map f xs) = []"
      using Cons.prems(3) by (intro concat_all_Nil) auto
    with True show ?thesis by simp
  next
    case False
    then have "f a = []" using Cons.prems(3) by simp
    moreover have "concat (map f xs) = f x"
      using Cons False by auto
    ultimately show ?thesis by simp
  qed
qed

lemma aggregate_single_queue:
  assumes "distinct (map fst qs)" and "(e, q) \<in> set qs"
    and "\<And>e' q'. (e', q') \<in> set qs \<Longrightarrow> e' \<noteq> e \<Longrightarrow> q' = []"
  shows "fst (aggregateLogs enc qs) = category_logs enc e q"
proof -
  have d: "distinct (js_entries qs)"
    using assms(1) by (intro distinct_js_entries) (rule distinct_map [THEN iffD1, THEN conjunct1])
  have m: "(e, q) \<in> set (js_entries qs)"
    using assms(2) by (simp add: set_js_entries)
  have o: "\<And>y. y \<in> set (js_entries qs) \<Longrightarrow> y \<noteq> (e, q) \<Longrightarrow>
             (\<lambda>(event, qd). category_logs enc event qd) y = []"
  proof -
    fix y assume y: "y \<in> set (js_entries qs)" "y \<noteq> (e, q)"
    obtain e' q' where [simp]: "y = (e', q')" by (cases y)
    have in_qs: "(e', q') \<in> set qs" using y(1) by (simp add: set_js_entries)
    have "e' \<noteq> e"
    proof
      assume "e' = e"
      with in_qs assms(1,2) have "q' = q"
        by (meson eq_key_imp_eq_value)
      with \<open>e' = e\<close> y(2) show False by simp
    qed
    then have "q' = []" using assms(3) in_qs by blast
    then show "(\<lambda>(event, qd). category_logs enc event qd) y = []"
      by (simp add: category_logs_Nil)
  qed
  show ?thesis
    unfolding aggregateLogs_fst
    using concat_map_single [OF d m o] by simp
qed

subsection \<open>The turns of the event loop\<close>

lemma step_Fire:
  "h \<in> set (timers s) \<Longrightarrow>
   step cfg col s (Fire h) = sendMail_start cfg col ''log:err'' (s\<lparr>timers := removeAll h (timers s)\<rparr>)"
  by (simp add: step_def)

lemma step_broadcast:
  assumes "map_of (cfg_target cfg) ev = Some names" and "process_name p \<in> set names"
    and "map_of (queues s) ev = Some q0" and "ev \<noteq> ''log:err''"
    and "includes_str (data p) ''BROADCST:EMAIL''"
  shows "step cfg col s (Emit ev p) =
     sendMail_start cfg col ev
       (s\<lparr>queues := push_queue ev
            \<lparr>qd_event = ev, qd_name = process_name p, qd_message = data p\<rparr> (queues s)\<rparr>)"
  using assms map_of_eventTypes [OF assms(1)]
  by (simp add: step_def handleEvent_def schedule_def Let_def)


lemma pending_error_event_keeps_timer:
  assumes "mailTimeout s \<noteq> None" and "handleEvent cfg col ''log:err'' p s = Some s'"
  shows "timers s' = timers s \<and> mailTimeout s' = mailTimeout s \<and> rendered s' = rendered s"
  using assms
  by (auto simp: handleEvent_def schedule_def Let_def split: option.splits if_splits)

lemma handleEvent_quiet:
  assumes "handleEvent cfg col ev p s = Some s'"
    and "ev = ''log:err'' \<or> \<not> includes_str (data p) ''BROADCST:EMAIL''"
  shows "awaiting s' = awaiting s
       \<and> ((mailTimeout s' = mailTimeout s \<and> timers s' = timers s)
          \<or> (mailTimeout s = None \<and> mailTimeout s' = Some (next_handle s)
             \<and> timers s' = timers s @ [next_handle s]))"
  using assms
  by (auto simp: handleEvent_def schedule_def Let_def split: option.splits if_splits)

subsection \<open>Events of processes that are not watched\<close>

text \<open>
  C8. When the process name of an event is not in \<open>config.target[event]\<close>, \<open>handleEvent\<close>
  returns at line 77 with the whole state as it was: no queue changes, no timer is armed,
  nothing is rendered or sent, and nothing is written to the console.
\<close>

theorem unwatched_event_is_dropped:
  assumes "map_of (cfg_target cfg) event = Some names"
    and "process_name p \<notin> set names"
  shows "handleEvent cfg col event p s = Some s \<and> step cfg col s (Emit event p) = s"
  using assms by (simp add: handleEvent_def step_def)

theorem unwatched_event_is_dropped_witness:
  "map_of (cfg_target demo_config) ''log:err'' = Some [''svc'', ''constructor'']
   \<and> process_name (pkt ''db'' ''down'') \<notin> set [''svc'', ''constructor'']
   \<and> handleEvent demo_config demo_collab ''log:err'' (pkt ''db'' ''down'')
         (init_state demo_config) = Some (init_state demo_config)
   \<and> step demo_config demo_collab (init_state demo_config)
         (Emit ''log:err'' (pkt ''db'' ''down'')) = init_state demo_config"
proof -
  have t: "map_of (cfg_target demo_config) ''log:err'' = Some [''svc'', ''constructor'']"
    by (simp add: demo_config_def)
  have n: "process_name (pkt ''db'' ''down'') \<notin> set [''svc'', ''constructor'']"
    by (simp add: pkt_def)
  from unwatched_event_is_dropped [OF t n] t n show ?thesis
    by blast
qed

subsection \<open>The debounce timer\<close>

text \<open>
  While \<open>mailTimeout\<close> is set, an error event is queued and nothing else happens: no
  timeout is armed, \<open>mailTimeout\<close> keeps its handle, nothing is rendered (lemma
  \<open>pending_error_event_keeps_timer\<close> above). As long as no event enters the broadcast
  branch, the discipline \<open>single_timer\<close> is kept by every turn, so at most one timeout is
  armed at any time.
\<close>

lemma single_timer_step:
  assumes "single_timer s" and "broadcast_free a"
  shows "single_timer (step cfg col s a)"
proof (cases a)
  case (Emit ev p)
  show ?thesis
  proof (cases "ev \<in> set (eventTypes cfg)")
    case False
    with Emit assms(1) show ?thesis by (simp add: step_def)
  next
    case True
    show ?thesis
    proof (cases "handleEvent cfg col ev p s")
      case None
      with Emit True assms(1) show ?thesis by (simp add: step_def)
    next
      case (Some s')
      have q: "ev = ''log:err'' \<or> \<not> includes_str (data p) ''BROADCST:EMAIL''"
        using assms(2) Emit by (simp add: broadcast_free_def)
      have st: "step cfg col s a = s'"
        using Emit True Some by (simp add: step_def)
      from handleEvent_quiet [OF Some q] assms(1) show ?thesis
        unfolding st single_timer_def by (auto split: option.splits)
    qed
  qed
next
  case (Fire h)
  show ?thesis
  proof (cases "h \<in> set (timers s)")
    case False
    with Fire assms(1) show ?thesis by (simp add: step_def)
  next
    case True
    let ?t = "s\<lparr>timers := removeAll h (timers s)\<rparr>"
    have st: "step cfg col s a = sendMail_start cfg col ''log:err'' ?t"
      using Fire True by (simp add: step_def)
    have t: "timers ?t = []" "awaiting ?t = 0" "mailTimeout ?t \<noteq> None"
      using assms(1) True unfolding single_timer_def by (auto split: option.splits)
    from sendMail_start_slot [of cfg col "''log:err''" ?t] t show ?thesis
      unfolding st single_timer_def
      by (auto simp: sendMail_start_timers simp del: state.simps split: option.splits)
  qed
next
  case (Settle ok)
  with assms(1) show ?thesis
    by (auto simp: step_def single_timer_def sendMail_settle_def split: option.splits)
qed

lemma single_timer_run:
  assumes "single_timer s" and "list_all broadcast_free as"
  shows "single_timer (run cfg col s as)"
  using assms unfolding run_def
  by (induction as arbitrary: s) (simp_all add: single_timer_step)

lemma single_timer_init: "single_timer (init_state cfg)"
  by (simp add: single_timer_def init_state_def)

lemma broadcast_free_at_most_one_timer:
  assumes "list_all broadcast_free as"
  shows "length (timers (run cfg col (init_state cfg) as)) \<le> 1"
proof -
  have "single_timer (run cfg col (init_state cfg) as)"
    using single_timer_init assms by (rule single_timer_run)
  then show ?thesis
    by (auto simp: single_timer_def split: option.splits)
qed

text \<open>
  C1. The claim is that at most one debounce timeout is ever outstanding, also across
  broadcast dispatches that run while it is pending. On the code this fails: \<open>sendMail\<close>
  sets \<open>mailTimeout = null\<close> in its \<open>finally\<close> whoever called it, and never calls
  \<open>clearTimeout\<close>. After an error event has armed timeout 0, a broadcast event in
  \<open>log:out\<close> dispatches; when its send settles, \<open>mailTimeout\<close> is \<open>null\<close> while timeout 0 is
  still armed, and the next error event arms timeout 1: two timeouts are outstanding.
\<close>

theorem second_timer_after_broadcast:
  "timers (run demo_config demo_collab (init_state demo_config)
      [Emit ''log:err'' (pkt ''svc'' ''A'')]) = [0]
   \<and> timers (run demo_config demo_collab (init_state demo_config)
      [Emit ''log:err'' (pkt ''svc'' ''A''),
       Emit ''log:out'' (pkt ''svc'' ''BROADCST:EMAIL''),
       Settle True]) = [0]
   \<and> timers (run demo_config demo_collab (init_state demo_config)
      [Emit ''log:err'' (pkt ''svc'' ''A''),
       Emit ''log:out'' (pkt ''svc'' ''BROADCST:EMAIL''),
       Settle True,
       Emit ''log:err'' (pkt ''svc'' ''B'')]) = [0, 1]"
  by code_simp

text \<open>
  C2. The claim is that a broadcast dispatch leaves the pending-timer slot as it found it.
  On the code the slot holds handle 0 before the broadcast dispatch and \<open>null\<close> once the
  dispatch has completed, whether the send settles or mjml2html reports an error (then
  \<open>finally\<close> runs before \<open>handleEvent\<close> returns).
\<close>

theorem broadcast_dispatch_clears_slot:
  "mailTimeout (run demo_config demo_collab (init_state demo_config)
      [Emit ''log:err'' (pkt ''svc'' ''A'')]) = Some 0
   \<and> mailTimeout (run demo_config demo_collab (init_state demo_config)
      [Emit ''log:err'' (pkt ''svc'' ''A''),
       Emit ''log:out'' (pkt ''svc'' ''BROADCST:EMAIL''),
       Settle True]) = None
   \<and> mailTimeout (run demo_config failing_collab (init_state demo_config)
      [Emit ''log:err'' (pkt ''svc'' ''A''),
       Emit ''log:out'' (pkt ''svc'' ''BROADCST:EMAIL'')]) = None"
  by code_simp

subsection \<open>Aggregation\<close>

text \<open>
  For a process name that \<open>content\<close> does not inherit, the entry of the process in its
  category is labelled \<open>name event\<close> and carries the encoding of the concatenated
  payloads, and no other entry of the category has that label.
\<close>

lemma map_of_append_message:
  "map_of (map (\<lambda>(k, v). if k = n then (k, v @ m) else (k, v)) c) k'
     = (if k' = n then map_option (\<lambda>v. v @ m) (map_of c n) else map_of c k')"
  by (induction c) auto

lemma map_fst_append_message:
  "map fst (map (\<lambda>(k, v). if k = n then (k, v @ m) else (k, v)) c) = map fst c"
  by (induction c) auto

lemma add_fragment_distinct:
  assumes "distinct (map fst c)"
  shows "distinct (map fst (add_fragment c d))"
proof (cases "map_of c (qd_name d)")
  case None
  then have "qd_name d \<notin> set (map fst c)"
    by (simp add: map_of_eq_None_iff)
  with assms None show ?thesis
    by (simp add: add_fragment_def)
next
  case (Some s)
  with assms show ?thesis
    by (simp add: add_fragment_def map_fst_append_message del: map_map)
qed

lemma add_fragment_plain:
  assumes "plain_name n"
  shows "map_of (add_fragment c d) n
     = (if qd_name d = n
        then Some ((case map_of c n of Some s \<Rightarrow> s | None \<Rightarrow> []) @ qd_message d)
        else map_of c n)"
proof (cases "map_of c (qd_name d)")
  case None
  with assms show ?thesis
    by (auto simp: add_fragment_def plain_name_def map_add_def split: option.splits)
next
  case (Some s)
  then show ?thesis
    by (auto simp: add_fragment_def map_of_append_message)
qed

lemma foldl_add_fragment_distinct:
  "distinct (map fst c) \<Longrightarrow> distinct (map fst (foldl add_fragment c qd))"
  by (induction qd arbitrary: c) (simp_all add: add_fragment_distinct)

lemma foldl_add_fragment_plain:
  assumes "plain_name n"
  shows "map_of (foldl add_fragment c qd) n
     = (if \<exists>d \<in> set qd. qd_name d = n
        then Some ((case map_of c n of Some s \<Rightarrow> s | None \<Rightarrow> []) @ payloads n qd)
        else map_of c n)"
proof (induction qd arbitrary: c)
  case Nil
  then show ?case by simp
next
  case (Cons d qd)
  show ?case
    by (simp add: Cons.IH add_fragment_plain [OF assms] payloads_def)
qed

lemma group_content_plain:
  assumes "plain_name n" and "d \<in> set qd" and "qd_name d = n"
  shows "map_of (group_content qd) n = Some (payloads n qd)"
  using assms(2,3) foldl_add_fragment_plain [OF assms(1), of "[]" qd]
  by (auto simp: group_content_def)

lemma group_content_distinct: "distinct (map fst (group_content qd))"
  by (simp add: group_content_def foldl_add_fragment_distinct)

lemma plain_name_entry:
  assumes "plain_name n" and "d \<in> set qd" and "qd_name d = n"
  shows "\<lparr>log_name = n @ '' '' @ e, log_message = enc (payloads n qd)\<rparr>
           \<in> set (category_logs enc e qd)"
    and "\<And>l. l \<in> set (category_logs enc e qd) \<Longrightarrow> log_name l = n @ '' '' @ e
           \<Longrightarrow> log_message l = enc (payloads n qd)"
proof -
  have m: "map_of (group_content qd) n = Some (payloads n qd)"
    using assms by (rule group_content_plain)
  then have "(n, payloads n qd) \<in> set (js_entries (group_content qd))"
    by (simp add: set_js_entries map_of_SomeD)
  then show "\<lparr>log_name = n @ '' '' @ e, log_message = enc (payloads n qd)\<rparr>
           \<in> set (category_logs enc e qd)"
    unfolding category_logs_def by force
next
  fix l
  assume l: "l \<in> set (category_logs enc e qd)" and nm: "log_name l = n @ '' '' @ e"
  have m: "map_of (group_content qd) n = Some (payloads n qd)"
    using assms by (rule group_content_plain)
  from l obtain n' m' where nm': "(n', m') \<in> set (group_content qd)"
    and l_eq: "l = \<lparr>log_name = n' @ '' '' @ e, log_message = enc m'\<rparr>"
    unfolding category_logs_def by (auto simp: set_js_entries)
  from nm l_eq have "n' = n" by simp
  with nm' have "map_of (group_content qd) n = Some m'"
    using group_content_distinct [of qd] by simp
  with m have "m' = payloads n qd" by simp
  with l_eq show "log_message l = enc (payloads n qd)" by simp
qed

lemma plain_name_entry_aggregated:
  assumes "plain_name n" and "d \<in> set qd" and "qd_name d = n" and "(e, qd) \<in> set qs"
  shows "\<lparr>log_name = n @ '' '' @ e, log_message = enc (payloads n qd)\<rparr>
           \<in> set (fst (aggregateLogs enc qs))"
proof -
  have "(e, qd) \<in> set (js_entries qs)"
    using assms(4) by (simp add: set_js_entries)
  with plain_name_entry(1) [OF assms(1-3), of e enc] show ?thesis
    unfolding aggregateLogs_fst by force
qed

text \<open>
  For every process name but \<open>__proto__\<close>, each queued fragment is part of an entry of its
  category: the entry carries the encoding of what the name inherits, followed by the
  payloads of all the fragments of that process in arrival order.
\<close>

lemma add_fragment_named:
  assumes "n \<noteq> ''__proto__''"
  shows "map_of (add_fragment c d) n
     = (if qd_name d = n
        then Some ((case map_of c n of Some s \<Rightarrow> s | None \<Rightarrow> inherited_text n) @ qd_message d)
        else map_of c n)"
proof (cases "map_of c (qd_name d)")
  case None
  with assms show ?thesis
    by (auto simp: add_fragment_def inherited_text_def map_add_def split: option.splits)
next
  case (Some s)
  then show ?thesis
    by (auto simp: add_fragment_def map_of_append_message)
qed

lemma foldl_add_fragment_named:
  assumes "n \<noteq> ''__proto__''"
  shows "map_of (foldl add_fragment c qd) n
     = (if \<exists>d \<in> set qd. qd_name d = n
        then Some ((case map_of c n of Some s \<Rightarrow> s | None \<Rightarrow> inherited_text n)
                     @ payloads n qd)
        else map_of c n)"
proof (induction qd arbitrary: c)
  case Nil
  then show ?case by simp
next
  case (Cons d qd)
  show ?case
    by (simp add: Cons.IH add_fragment_named [OF assms] payloads_def)
qed

lemma fragment_entry:
  assumes "d \<in> set qd" and "qd_name d \<noteq> ''__proto__''"
  shows "\<lparr>log_name = qd_name d @ '' '' @ e,
          log_message = enc (inherited_text (qd_name d) @ payloads (qd_name d) qd)\<rparr>
           \<in> set (category_logs enc e qd)"
proof -
  let ?n = "qd_name d"
  have "map_of (group_content qd) ?n = Some (inherited_text ?n @ payloads ?n qd)"
    using assms(1) foldl_add_fragment_named [OF assms(2), of "[]" qd]
    by (auto simp: group_content_def)
  then have "(?n, inherited_text ?n @ payloads ?n qd) \<in> set (js_entries (group_content qd))"
    by (simp add: set_js_entries map_of_SomeD)
  then show ?thesis
    unfolding category_logs_def by force
qed

lemma plain_pair_logs:
  assumes "plain_name n"
  shows "category_logs enc e [frag e n a, frag e n b]
     = [\<lparr>log_name = n @ '' '' @ e, log_message = enc (a @ b)\<rparr>]"
proof -
  have "group_content [frag e n a, frag e n b] = [(n, a @ b)]"
    using assms by (simp add: group_content_def add_fragment_def frag_def plain_name_def)
  moreover have "js_entries [(n, a @ b)] = [(n, a @ b)]"
    by (simp add: js_entries_def)
  ultimately show ?thesis
    by (simp add: category_logs_def)
qed

text \<open>
  C3. The claim is that for every process name the aggregated message is the encoding of
  the concatenated payloads. \<open>content\<close> is an object literal, so for a process named
  \<open>constructor\<close> the read \<open>content[data.name]\<close> finds the inherited function \<open>Object\<close>
  instead of \<open>undefined\<close>, and the message starts with the source text of that function:
  one fragment with payload \<open>A\<close> gives \<open>function Object() { [native code] }A\<close>, where the
  encoding of the payload is \<open>A\<close>.
\<close>

theorem inherited_name_prefixes_message:
  "fst (aggregateLogs he_encode_ascii
      [(''log:err'',
        [\<lparr>qd_event = ''log:err'', qd_name = ''constructor'', qd_message = ''A''\<rparr>])])
   = [\<lparr>log_name = ''constructor log:err'',
       log_message = ''function Object() { [native code] }A''\<rparr>]
   \<and> he_encode_ascii ''A'' = ''A''"
  by code_simp

text \<open>
  From the initial state, two error events of one watched process with a plain name arm
  one timeout and dispatch nothing; when the timeout fires, one dispatch renders one entry,
  the encoding of the two payloads concatenated.
\<close>

lemma two_errors_one_dispatch:
  fixes cfg :: config and col :: collab and n a b :: string
  assumes "distinct (map fst (cfg_target cfg))"
    and "map_of (cfg_target cfg) ''log:err'' = Some names"
    and "n \<in> set names" and "plain_name n"
  defines "s2 \<equiv> run cfg col (init_state cfg)
                   [Emit ''log:err'' (pkt n a), Emit ''log:err'' (pkt n b)]"
  shows "timers s2 = [0] \<and> rendered s2 = []
       \<and> timers (step cfg col s2 (Fire 0)) = []
       \<and> rendered (step cfg col s2 (Fire 0))
           = [[\<lparr>log_name = n @ '' log:err'', log_message = he_encode col (a @ b)\<rparr>]]"
proof -
  let ?e = "''log:err''"
  let ?ets = "filter (\<lambda>event. event \<noteq> ''__proto__'') (eventTypes cfg)"
  have ev0: "?e \<in> set (eventTypes cfg)"
    using assms(2) by (rule map_of_eventTypes)
  then have ev: "?e \<in> set ?ets"
    by simp
  have "distinct (eventTypes cfg)"
    unfolding eventTypes_def using assms(1) by (rule distinct_keys_js_entries)
  then have dist: "distinct ?ets"
    by (rule distinct_filter)
  have q0: "map_of (init_queues cfg) ?e = Some []"
    using assms(2) by (rule map_of_init_queues) simp
  let ?s1 = "(init_state cfg)\<lparr>queues := push_queue ?e (frag ?e n a) (init_queues cfg),
                mailTimeout := Some 0, timers := [0], next_handle := 1\<rparr>"
  have s1: "step cfg col (init_state cfg) (Emit ?e (pkt n a)) = ?s1"
    using assms(2,3) ev0 q0
    by (simp add: step_def handleEvent_def schedule_def init_state_def pkt_def frag_def)
  let ?qs2 = "push_queue ?e (frag ?e n b) (push_queue ?e (frag ?e n a) (init_queues cfg))"
  have s2_eq: "s2 = ?s1\<lparr>queues := ?qs2\<rparr>"
    using assms(2,3) ev0 q0
    by (simp add: s2_def run_def s1)
       (simp add: step_def handleEvent_def schedule_def init_state_def pkt_def frag_def
          map_of_push_queue)
  have qs2: "?qs2 = map (\<lambda>e. (e, if e = ?e then [frag ?e n a, frag ?e n b] else [])) ?ets"
    unfolding init_queues_def by (rule push_two_after_init)
  have agg: "fst (aggregateLogs enc ?qs2) = category_logs enc ?e [frag ?e n a, frag ?e n b]" for enc
  proof (rule aggregate_single_queue)
    have "map fst ?qs2 = ?ets"
      unfolding qs2 by (rule map_fst_tagged)
    then show "distinct (map fst ?qs2)"
      using dist by simp
    show "(?e, [frag ?e n a, frag ?e n b]) \<in> set ?qs2"
      unfolding qs2 using ev by force
    show "\<And>e' q'. (e', q') \<in> set ?qs2 \<Longrightarrow> e' \<noteq> ?e \<Longrightarrow> q' = []"
      unfolding qs2 by auto
  qed
  have fire: "step cfg col s2 (Fire 0) = sendMail_start cfg col ?e (s2\<lparr>timers := []\<rparr>)"
    by (simp add: s2_eq step_def)
  have "rendered (step cfg col s2 (Fire 0))
      = [[\<lparr>log_name = n @ '' log:err'', log_message = he_encode col (a @ b)\<rparr>]]"
    unfolding fire sendMail_start_rendered
    by (simp add: s2_eq agg plain_pair_logs [OF assms(4)] init_state_def)
  moreover have "timers (step cfg col s2 (Fire 0)) = []"
    unfolding fire by (simp add: sendMail_start_timers)
  moreover have "timers s2 = [0]" "rendered s2 = []"
    by (simp_all add: s2_eq init_state_def)
  ultimately show ?thesis by simp
qed

text \<open>
  C4. The claim is that two error events of the same process before the timeout fires
  give one dispatch whose entry is the encoding of \<open>AB\<close>. There is one dispatch, but for
  the watched process \<open>constructor\<close> its entry is
  \<open>function Object() { [native code] }AB\<close>, where the encoding of \<open>AB\<close> is \<open>AB\<close>.
\<close>

theorem two_errors_inherited_name:
  "rendered (run demo_config demo_collab (init_state demo_config)
      [Emit ''log:err'' (pkt ''constructor'' ''A''),
       Emit ''log:err'' (pkt ''constructor'' ''B''),
       Fire 0])
   = [[\<lparr>log_name = ''constructor log:err'',
        log_message = ''function Object() { [native code] }AB''\<rparr>]]
   \<and> he_encode_ascii ''AB'' = ''AB''"
  by code_simp

subsection \<open>Every dispatch drains every queue\<close>

text \<open>
  C5. Whether the timeout fires or a broadcast event arrives in a category other than
  \<open>log:err\<close>, the dispatch leaves every queue empty, and for every category \<open>e\<close> with
  queue \<open>q\<close> (the error category among them) the logs it renders contain the entries
  aggregated from \<open>q\<close>; for the category of the broadcast event, from \<open>q\<close> with the new
  fragment appended. In particular every fragment \<open>d\<close> of such a queue reaches the
  dispatch: the rendered logs hold the entry labelled with the process and the category of
  \<open>d\<close>, whose message is the encoding of the payloads of that process in the queue, in
  arrival order (after the source text of an inherited function, for a process of such a
  name; fragments of a process named \<open>__proto__\<close> are drained without an entry).
\<close>

theorem every_dispatch_drains_all_categories:
  "(h \<in> set (timers s) \<longrightarrow>
      list_all (\<lambda>eq. snd eq = []) (queues (step cfg col s (Fire h)))
    \<and> ((e, q) \<in> set (queues s) \<longrightarrow>
          set (category_logs (he_encode col) e q)
            \<subseteq> set (last (rendered (step cfg col s (Fire h))))
        \<and> (d \<in> set q \<and> qd_name d \<noteq> ''__proto__'' \<longrightarrow>
              \<lparr>log_name = qd_name d @ '' '' @ e,
               log_message =
                 he_encode col (inherited_text (qd_name d) @ payloads (qd_name d) q)\<rparr>
                \<in> set (last (rendered (step cfg col s (Fire h)))))))
   \<and> (map_of (cfg_target cfg) ev = Some names \<and> process_name p \<in> set names
      \<and> map_of (queues s) ev = Some q0 \<and> ev \<noteq> ''log:err''
      \<and> includes_str (data p) ''BROADCST:EMAIL'' \<longrightarrow>
        list_all (\<lambda>eq. snd eq = []) (queues (step cfg col s (Emit ev p)))
      \<and> ((e, q) \<in> set (queues s) \<longrightarrow>
            set (category_logs (he_encode col) e
                  (if e = ev
                   then q @ [\<lparr>qd_event = ev, qd_name = process_name p, qd_message = data p\<rparr>]
                   else q))
              \<subseteq> set (last (rendered (step cfg col s (Emit ev p))))
          \<and> (d \<in> set (if e = ev
                       then q @ [\<lparr>qd_event = ev, qd_name = process_name p,
                                   qd_message = data p\<rparr>]
                       else q)
              \<and> qd_name d \<noteq> ''__proto__'' \<longrightarrow>
                \<lparr>log_name = qd_name d @ '' '' @ e,
                 log_message =
                   he_encode col
                     (inherited_text (qd_name d)
                      @ payloads (qd_name d)
                          (if e = ev
                           then q @ [\<lparr>qd_event = ev, qd_name = process_name p,
                                       qd_message = data p\<rparr>]
                           else q))\<rparr>
                  \<in> set (last (rendered (step cfg col s (Emit ev p)))))))"
proof (intro conjI impI)
  assume h: "h \<in> set (timers s)"
  show "list_all (\<lambda>eq. snd eq = []) (queues (step cfg col s (Fire h)))"
    by (simp only: step_Fire [OF h] sendMail_start_drained)
  assume m: "(e, q) \<in> set (queues s)"
  then have "(e, q) \<in> set (queues (s\<lparr>timers := removeAll h (timers s)\<rparr>))"
    by simp
  then show sub: "set (category_logs (he_encode col) e q)
      \<subseteq> set (last (rendered (step cfg col s (Fire h))))"
    unfolding step_Fire [OF h] by (rule sendMail_start_includes)
  assume "d \<in> set q \<and> qd_name d \<noteq> ''__proto__''"
  then have "\<lparr>log_name = qd_name d @ '' '' @ e,
      log_message = he_encode col (inherited_text (qd_name d) @ payloads (qd_name d) q)\<rparr>
        \<in> set (category_logs (he_encode col) e q)"
    by (intro fragment_entry) simp_all
  with sub show "\<lparr>log_name = qd_name d @ '' '' @ e,
      log_message = he_encode col (inherited_text (qd_name d) @ payloads (qd_name d) q)\<rparr>
        \<in> set (last (rendered (step cfg col s (Fire h))))"
    by blast
next
  let ?d = "\<lparr>qd_event = ev, qd_name = process_name p, qd_message = data p\<rparr>"
  let ?q = "if e = ev then q @ [?d] else q"
  assume b: "map_of (cfg_target cfg) ev = Some names \<and> process_name p \<in> set names
          \<and> map_of (queues s) ev = Some q0 \<and> ev \<noteq> ''log:err''
          \<and> includes_str (data p) ''BROADCST:EMAIL''"
  then have st: "step cfg col s (Emit ev p) =
     sendMail_start cfg col ev (s\<lparr>queues := push_queue ev ?d (queues s)\<rparr>)"
    by (intro step_broadcast) auto
  show "list_all (\<lambda>eq. snd eq = []) (queues (step cfg col s (Emit ev p)))"
    by (simp only: st sendMail_start_drained)
  assume m: "(e, q) \<in> set (queues s)"
  have "(e, ?q) \<in> set (queues (s\<lparr>queues := push_queue ev ?d (queues s)\<rparr>))"
    using push_queue_mem [OF m] by simp
  then show sub: "set (category_logs (he_encode col) e ?q)
      \<subseteq> set (last (rendered (step cfg col s (Emit ev p))))"
    unfolding st by (rule sendMail_start_includes)
  assume "d \<in> set ?q \<and> qd_name d \<noteq> ''__proto__''"
  then have "\<lparr>log_name = qd_name d @ '' '' @ e,
      log_message = he_encode col (inherited_text (qd_name d) @ payloads (qd_name d) ?q)\<rparr>
        \<in> set (category_logs (he_encode col) e ?q)"
    by (intro fragment_entry) simp_all
  with sub show "\<lparr>log_name = qd_name d @ '' '' @ e,
      log_message = he_encode col (inherited_text (qd_name d) @ payloads (qd_name d) ?q)\<rparr>
        \<in> set (last (rendered (step cfg col s (Emit ev p))))"
    by blast
qed

theorem every_dispatch_drains_all_categories_witness:
  "0 \<in> set (timers errors_pending)
   \<and> (''log:err'', [frag ''log:err'' ''svc'' ''A'', frag ''log:err'' ''constructor'' ''B'',
                     frag ''log:err'' ''svc'' ''C<'']) \<in> set (queues errors_pending)
   \<and> list_all (\<lambda>eq. snd eq = [])
        (queues (step demo_config demo_collab errors_pending (Fire 0)))
   \<and> \<lparr>log_name = ''svc log:err'', log_message = ''AC&#x3C;''\<rparr>
        \<in> set (last (rendered (step demo_config demo_collab errors_pending (Fire 0))))
   \<and> map_of (cfg_target demo_config) ''log:out'' = Some [''svc'', ''constructor'']
   \<and> process_name (pkt ''svc'' ''BROADCST:EMAIL'') \<in> set [''svc'', ''constructor'']
   \<and> map_of (queues errors_pending) ''log:out'' = Some []
   \<and> includes_str (data (pkt ''svc'' ''BROADCST:EMAIL'')) ''BROADCST:EMAIL''
   \<and> list_all (\<lambda>eq. snd eq = [])
        (queues (step demo_config demo_collab errors_pending
                  (Emit ''log:out'' (pkt ''svc'' ''BROADCST:EMAIL''))))
   \<and> \<lparr>log_name = ''svc log:err'', log_message = ''AC&#x3C;''\<rparr>
        \<in> set (last (rendered (step demo_config demo_collab errors_pending
                                  (Emit ''log:out'' (pkt ''svc'' ''BROADCST:EMAIL'')))))
   \<and> last (rendered (step demo_config demo_collab errors_pending
                        (Emit ''log:out'' (pkt ''svc'' ''BROADCST:EMAIL''))))
       = [\<lparr>log_name = ''svc log:err'', log_message = ''AC&#x3C;''\<rparr>,
          \<lparr>log_name = ''constructor log:err'',
           log_message = ''function Object() { [native code] }B''\<rparr>,
          \<lparr>log_name = ''svc log:out'', log_message = ''BROADCST:EMAIL''\<rparr>]"
proof -
  let ?q = "[frag ''log:err'' ''svc'' ''A'', frag ''log:err'' ''constructor'' ''B'',
             frag ''log:err'' ''svc'' ''C<'']"
  let ?d = "frag ''log:err'' ''svc'' ''A''"
  have h0: "(''log:err'', ?q) \<in> set (queues errors_pending)"
    by code_simp
  have h1: "0 \<in> set (timers errors_pending)"
    by code_simp
  have h2: "map_of (cfg_target demo_config) ''log:out'' = Some [''svc'', ''constructor'']"
    by code_simp
  have h3: "process_name (pkt ''svc'' ''BROADCST:EMAIL'') \<in> set [''svc'', ''constructor'']"
    by code_simp
  have h4: "map_of (queues errors_pending) ''log:out'' = Some []"
    by code_simp
  have h5: "includes_str (data (pkt ''svc'' ''BROADCST:EMAIL'')) ''BROADCST:EMAIL''"
    by code_simp
  have h6: "''log:out'' \<noteq> ''log:err''"
    by simp
  have h7: "?d \<in> set ?q \<and> qd_name ?d \<noteq> ''__proto__''"
    by (simp add: frag_def)
  have e1: "qd_name ?d = ''svc''"
    by (simp add: frag_def)
  have e2: "he_encode demo_collab (inherited_text ''svc'' @ payloads ''svc'' ?q) = ''AC&#x3C;''"
    by code_simp
  have e3: "''svc'' @ '' '' @ ''log:err'' = ''svc log:err''"
    by simp
  have e4: "(if ''log:err'' = ''log:out'' then x else y) = y" for x y :: "qdata list"
    by simp
  have all: "last (rendered (step demo_config demo_collab errors_pending
                        (Emit ''log:out'' (pkt ''svc'' ''BROADCST:EMAIL''))))
       = [\<lparr>log_name = ''svc log:err'', log_message = ''AC&#x3C;''\<rparr>,
          \<lparr>log_name = ''constructor log:err'',
           log_message = ''function Object() { [native code] }B''\<rparr>,
          \<lparr>log_name = ''svc log:out'', log_message = ''BROADCST:EMAIL''\<rparr>]"
    by code_simp
  from every_dispatch_drains_all_categories [where h = 0 and s = errors_pending
      and cfg = demo_config and col = demo_collab and e = "''log:err''" and q = ?q
      and d = ?d and ev = "''log:out''" and names = "[''svc'', ''constructor'']"
      and p = "pkt ''svc'' ''BROADCST:EMAIL''" and ?q0.0 = "[]"]
    h0 h1 h2 h3 h4 h5 h6 h7 all
  show ?thesis unfolding e4 e1 e3 e2 by blast
qed

text \<open>
  C7. After \<open>aggregateLogs\<close> every queue is empty; a second call right after the first
  aggregates nothing and changes nothing; when one fragment is pushed between two calls,
  the second call aggregates that fragment alone; and of two dispatches in a row the
  second one renders the empty list.
\<close>

theorem drain_is_exhaustive_and_exactly_once:
  assumes "distinct (map fst qs)" and "e \<in> set (map fst qs)"
  shows "list_all (\<lambda>eq. snd eq = []) (snd (aggregateLogs enc qs))
       \<and> fst (aggregateLogs enc (snd (aggregateLogs enc qs))) = []
       \<and> snd (aggregateLogs enc (snd (aggregateLogs enc qs))) = snd (aggregateLogs enc qs)
       \<and> fst (aggregateLogs enc (push_queue e d (snd (aggregateLogs enc qs))))
           = category_logs enc e [d]
       \<and> rendered (sendMail_start cfg col ev2 (sendMail_start cfg col ev1 s))
           = rendered s @ [fst (aggregateLogs (he_encode col) (queues s)), []]"
proof -
  let ?cleared = "map (\<lambda>(event, qd). (event, [])) qs"
  let ?pushed = "map (\<lambda>(event, qd). (event, if event = e then [d] else [])) qs"
  have a: "list_all (\<lambda>eq. snd eq = []) (snd (aggregateLogs enc qs))"
    by (simp add: aggregateLogs_snd drained_all_empty)
  have b: "fst (aggregateLogs enc (snd (aggregateLogs enc qs))) = []"
    using a by (rule aggregateLogs_empty)
  have c: "snd (aggregateLogs enc (snd (aggregateLogs enc qs))) = snd (aggregateLogs enc qs)"
    by (simp add: aggregateLogs_snd case_prod_beta comp_def)
  have fst_pushed: "map fst ?pushed = map fst qs"
    by (induction qs) auto
  have "fst (aggregateLogs enc ?pushed) = category_logs enc e [d]"
  proof (rule aggregate_single_queue)
    show "distinct (map fst ?pushed)"
      using assms(1) by (simp only: fst_pushed)
    show "(e, [d]) \<in> set ?pushed"
      using assms(2) by force
    show "\<And>e' q'. (e', q') \<in> set ?pushed \<Longrightarrow> e' \<noteq> e \<Longrightarrow> q' = []"
      by auto
  qed
  then have d: "fst (aggregateLogs enc (push_queue e d (snd (aggregateLogs enc qs))))
           = category_logs enc e [d]"
    by (simp add: aggregateLogs_snd push_after_drain)
  have "fst (aggregateLogs (he_encode col) (queues (sendMail_start cfg col ev1 s))) = []"
    by (rule aggregateLogs_empty) (rule sendMail_start_drained)
  then have e: "rendered (sendMail_start cfg col ev2 (sendMail_start cfg col ev1 s))
           = rendered s @ [fst (aggregateLogs (he_encode col) (queues s)), []]"
    by (simp add: sendMail_start_rendered)
  from a b c d e show ?thesis by blast
qed

theorem drain_is_exhaustive_and_exactly_once_witness:
  "distinct (map fst (queues error_pending))
   \<and> ''log:out'' \<in> set (map fst (queues error_pending))
   \<and> fst (aggregateLogs he_encode_ascii (queues error_pending))
       = [\<lparr>log_name = ''svc log:err'', log_message = ''A''\<rparr>]
   \<and> list_all (\<lambda>eq. snd eq = []) (snd (aggregateLogs he_encode_ascii (queues error_pending)))
   \<and> fst (aggregateLogs he_encode_ascii
            (snd (aggregateLogs he_encode_ascii (queues error_pending)))) = []
   \<and> fst (aggregateLogs he_encode_ascii
            (push_queue ''log:out'' (frag ''log:out'' ''svc'' ''up'')
               (snd (aggregateLogs he_encode_ascii (queues error_pending)))))
       = category_logs he_encode_ascii ''log:out'' [frag ''log:out'' ''svc'' ''up'']
   \<and> category_logs he_encode_ascii ''log:out'' [frag ''log:out'' ''svc'' ''up'']
       = [\<lparr>log_name = ''svc log:out'', log_message = ''up''\<rparr>]
   \<and> rendered (sendMail_start demo_config demo_collab ''log:out''
                 (sendMail_start demo_config demo_collab ''log:err'' error_pending))
       = rendered error_pending
           @ [fst (aggregateLogs (he_encode demo_collab) (queues error_pending)), []]"
proof -
  have h1: "distinct (map fst (queues error_pending))"
    by code_simp
  have h2: "''log:out'' \<in> set (map fst (queues error_pending))"
    by code_simp
  have h3: "fst (aggregateLogs he_encode_ascii (queues error_pending))
       = [\<lparr>log_name = ''svc log:err'', log_message = ''A''\<rparr>]"
    by code_simp
  have h4: "category_logs he_encode_ascii ''log:out'' [frag ''log:out'' ''svc'' ''up'']
       = [\<lparr>log_name = ''svc log:out'', log_message = ''up''\<rparr>]"
    by code_simp
  from drain_is_exhaustive_and_exactly_once [OF h1 h2, where enc = he_encode_ascii
      and d = "frag ''log:out'' ''svc'' ''up''" and cfg = demo_config and col = demo_collab
      and ?ev2.0 = "''log:out''" and ?ev1.0 = "''log:err''" and s = error_pending]
    h1 h2 h3 h4
  show ?thesis by blast
qed

subsection \<open>Failures of a dispatch\<close>



text \<open>
  C10. When every queue is empty, \<open>sendMail\<close> renders the empty list of logs and, the
  rendering reporting no error, hands the result to \<open>transporter.sendMail\<close>; so does the
  timeout that fires after a broadcast dispatch has drained the queues.
\<close>

theorem empty_dispatch_still_sends:
  assumes "list_all (\<lambda>eq. snd eq = []) (queues s)"
    and "template col [] = Some content"
    and "mjml2html col content = ([], output)"
  shows "rendered (sendMail_start cfg col ev s) = rendered s @ [[]]
       \<and> sent (sendMail_start cfg col ev s)
           = sent s @ [\<lparr>subject = mail_subject cfg ev, html = output\<rparr>]
       \<and> awaiting (sendMail_start cfg col ev s) = awaiting s + 1
       \<and> (h \<in> set (timers s) \<longrightarrow>
            sent (step cfg col s (Fire h))
              = sent s @ [\<lparr>subject = mail_subject cfg ''log:err'', html = output\<rparr>])"
proof -
  have e: "aggregateLogs (he_encode col) (queues s)
             = ([], map (\<lambda>(event, qd). (event, [])) (queues s))"
    using aggregateLogs_empty [OF assms(1), of "he_encode col"] aggregateLogs_snd [of "he_encode col" "queues s"]
    by (simp add: prod_eq_iff)
  have s: "\<And>ev t. queues t = queues s \<Longrightarrow> sent t = sent s \<Longrightarrow>
      sent (sendMail_start cfg col ev t)
           = sent s @ [\<lparr>subject = mail_subject cfg ev, html = output\<rparr>]"
    using e assms(2,3) by (simp add: sendMail_start_def)
  show ?thesis
    using e assms(2,3) s [of "s\<lparr>timers := removeAll h (timers s)\<rparr>" "''log:err''"]
    by (simp add: sendMail_start_def step_Fire)
qed

theorem empty_dispatch_still_sends_witness:
  "list_all (\<lambda>eq. snd eq = []) (queues drained_timer_armed)
   \<and> template demo_collab [] = Some []
   \<and> mjml2html demo_collab [] = ([], ''<p></p>'')
   \<and> 0 \<in> set (timers drained_timer_armed)
   \<and> rendered (sendMail_start demo_config demo_collab ''log:err'' drained_timer_armed)
       = rendered drained_timer_armed @ [[]]
   \<and> sent (step demo_config demo_collab drained_timer_armed (Fire 0))
       = sent drained_timer_armed @ [\<lparr>subject = ''log:err-pm2'', html = ''<p></p>''\<rparr>]"
proof -
  have h1: "list_all (\<lambda>eq. snd eq = []) (queues drained_timer_armed)"
    by code_simp
  have h2: "template demo_collab [] = Some []"
    by code_simp
  have h3: "mjml2html demo_collab [] = ([], ''<p></p>'')"
    by code_simp
  have h4: "0 \<in> set (timers drained_timer_armed)"
    by code_simp
  have sub: "mail_subject demo_config ''log:err'' = ''log:err-pm2''"
    by code_simp
  from empty_dispatch_still_sends [OF h1 h2 h3, of demo_config "''log:err''" 0] h1 h2 h3 h4 sub
  show ?thesis by metis
qed

subsection \<open>Start-up\<close>

text \<open>
  When \<open>transporter.verify()\<close> fails, \<open>process.exit(1)\<close> is called and no listener is
  registered; after any failed start-up no listener is registered.
\<close>

lemma smtp_failure_exits:
  "\<not> smtp_ok b \<Longrightarrow> exit_status (startup cfg b) = Some 1 \<and> subscribed (startup cfg b) = []"
  by (simp add: startup_def)

lemma startup_failure_no_subscription:
  "\<not> (smtp_ok b \<and> connect_ok b \<and> bus_ok b) \<Longrightarrow> subscribed (startup cfg b) = []"
  by (auto simp: startup_def)

text \<open>
  C9. The claim is that a failure of the mail verification or of the connection to the
  supervisor bus ends the process with a non-zero status. When \<open>pm2.connect\<close> or
  \<open>pm2.launchBus\<close> fails, the rejection reaches the \<open>catch\<close> at line 113, which writes
  \<open>Fatal error:\<close> to the console: \<open>process.exit\<close> is not called.
\<close>

theorem bus_failure_does_not_exit:
  "exit_status (startup cfg \<lparr>smtp_ok = True, connect_ok = False, bus_ok = b\<rparr>) = None
   \<and> exit_status (startup cfg \<lparr>smtp_ok = True, connect_ok = True, bus_ok = False\<rparr>) = None"
  by (simp add: startup_def)

end
